theory Spec2Isabelle
  imports Main
begin

section \<open>Data model\<close>

text \<open>
  Python values that the combinators build or inspect. \<open>PNone\<close> is Python's \<open>None\<close>,
  which the source uses as the failure sentinel in the first slot of a result pair.
\<close>

datatype pyval =
    PNone
  | PStr string
  | PInt int
  | PTuple "pyval list"
  | PList "pyval list"

text \<open>
  A parsing function maps (text, offset) to a result pair (value, offset). Offsets are
  cursors into the text and are never decremented by the source, so they are natural
  numbers. A Python call need not return (the loop of \<open>many\<close> can run forever, a
  callback can raise), so a call yields \<open>None\<close> when no pair is returned and
  \<open>Some (value, offset)\<close> otherwise.
\<close>

type_synonym result = "pyval \<times> nat"

type_synonym pfun = "string \<Rightarrow> nat \<Rightarrow> result option"

datatype Parser = Parser (func: pfun)

text \<open>\<open>Parser.__call__(self, text, pos=0)\<close>: the position is optional and defaults to 0.\<close>

definition call :: "Parser \<Rightarrow> string \<Rightarrow> nat option \<Rightarrow> result option" where
  "call self text pos = func self text (case pos of None \<Rightarrow> 0 | Some n \<Rightarrow> n)"

text \<open>The result pair as the Python tuple object that a callback receives.\<close>

definition pair_obj :: "result \<Rightarrow> pyval" where
  "pair_obj x = PTuple [fst x, PInt (int (snd x))]"

section \<open>Combinators\<close>

definition parse_seq :: "Parser \<Rightarrow> Parser \<Rightarrow> pfun" where
  "parse_seq parser1 parser2 s idx =
     (case call parser1 s (Some idx) of
        None \<Rightarrow> None
      | Some (x, idx2) \<Rightarrow>
          (case call parser2 s (Some idx2) of
             None \<Rightarrow> None
           | Some (y, idx3) \<Rightarrow>
               if x = PNone \<or> y = PNone then Some (PNone, idx)
               else Some (PTuple [x, y], idx3)))"

definition seq :: "Parser \<Rightarrow> Parser \<Rightarrow> Parser" where
  "seq parser1 parser2 = Parser (parse_seq parser1 parser2)"

definition parse_choice :: "Parser \<Rightarrow> Parser \<Rightarrow> pfun" where
  "parse_choice parser1 parser2 s idx =
     (case call parser1 s (Some idx) of
        None \<Rightarrow> None
      | Some x \<Rightarrow>
          if fst x \<noteq> PNone then Some x
          else call parser2 s (Some idx))"

definition choice :: "Parser \<Rightarrow> Parser \<Rightarrow> Parser" where
  "choice parser1 parser2 = Parser (parse_choice parser1 parser2)"

definition parse_compose :: "Parser \<Rightarrow> Parser \<Rightarrow> pfun" where
  "parse_compose parser1 parser2 s idx =
     (case call parser1 s (Some idx) of
        None \<Rightarrow> None
      | Some (x, idx2) \<Rightarrow>
          if x = PNone then Some (PNone, idx)
          else call parser2 s (Some idx2))"

definition compose :: "Parser \<Rightarrow> Parser \<Rightarrow> Parser" where
  "compose parser1 parser2 = Parser (parse_compose parser1 parser2)"

definition parse_between :: "Parser \<Rightarrow> Parser \<Rightarrow> Parser \<Rightarrow> pfun" where
  "parse_between parser1 parser2 parser3 s idx =
     (case call parser1 s (Some idx) of
        None \<Rightarrow> None
      | Some (x, idx2) \<Rightarrow>
          if x = PNone then Some (PNone, idx)
          else
            (case call parser2 s (Some idx2) of
               None \<Rightarrow> None
             | Some (y, idx3) \<Rightarrow>
                 if y = PNone then Some (PNone, idx)
                 else
                   (case call parser3 s (Some idx3) of
                      None \<Rightarrow> None
                    | Some (z, idx4) \<Rightarrow>
                        if z = PNone then Some (PNone, idx)
                        else Some (y, idx3))))"

definition between :: "Parser \<Rightarrow> Parser \<Rightarrow> Parser \<Rightarrow> Parser" where
  "between parser1 parser2 parser3 = Parser (parse_between parser1 parser2 parser3)"

text \<open>
  \<open>fmap\<close>: the callback \<open>f\<close> is a Python function of one argument; it yields
  \<open>None\<close> when it does not return a value. The source passes it \<open>x\<close>, the whole
  result pair of the sub-parser.
\<close>

definition parse_fmap :: "(pyval \<Rightarrow> pyval option) \<Rightarrow> Parser \<Rightarrow> pfun" where
  "parse_fmap f parser s idx =
     (case call parser s (Some idx) of
        None \<Rightarrow> None
      | Some x \<Rightarrow>
          if fst x = PNone then Some (PNone, idx)
          else (case f (pair_obj x) of
                  None \<Rightarrow> None
                | Some r \<Rightarrow> Some (r, snd x)))"

definition fmap :: "(pyval \<Rightarrow> pyval option) \<Rightarrow> Parser \<Rightarrow> Parser" where
  "fmap f parser = Parser (parse_fmap f parser)"

text \<open>
  \<open>regex\<close>: the pattern engine is Python's \<open>re\<close> library, which is not part of the
  repository. The parameter \<open>compiled_re\<close> stands for \<open>re.compile(regex_str).match\<close>:
  it yields \<open>None\<close> when there is no match and otherwise the pair
  (\<open>match.group(0)\<close>, \<open>match.end()\<close>). The source returns the bare inner function.
\<close>

definition regex :: "(string \<Rightarrow> nat \<Rightarrow> (string \<times> nat) option) \<Rightarrow> pfun" where
  "regex compiled_re s idx =
     (case compiled_re s idx of
        Some (group0, end) \<Rightarrow> Some (PStr group0, end)
      | None \<Rightarrow> Some (PNone, idx))"

definition pure :: "pyval \<Rightarrow> Parser" where
  "pure x = Parser (\<lambda>s idx. Some (x, idx))"

text \<open>\<open>bind\<close>: \<open>f(x)\<close> yields \<open>None\<close> when the callback does not return a parser.\<close>

definition bind_inner :: "Parser \<Rightarrow> (pyval \<Rightarrow> Parser option) \<Rightarrow> pfun" where
  "bind_inner parser f s idx =
     (case call parser s (Some idx) of
        None \<Rightarrow> None
      | Some (x, idx2) \<Rightarrow>
          if x = PNone then Some (PNone, idx)
          else (case f x of
                  None \<Rightarrow> None
                | Some q \<Rightarrow> call q s (Some idx2)))"

definition bind :: "Parser \<Rightarrow> (pyval \<Rightarrow> Parser option) \<Rightarrow> Parser" where
  "bind parser f = Parser (bind_inner parser f)"

text \<open>
  The \<open>while True\<close> loop of \<open>many\<close>, with the loop variables \<open>idx\<close> and
  \<open>result\<close> as arguments. A loop that never reaches \<open>break\<close> has the value \<open>None\<close>.
\<close>

partial_function (option) many_loop ::
  "Parser \<Rightarrow> string \<Rightarrow> nat \<Rightarrow> pyval list \<Rightarrow> (pyval list \<times> nat) option" where
  "many_loop parser s idx result =
     (case call parser s (Some idx) of
        None \<Rightarrow> None
      | Some (x, idx2) \<Rightarrow>
          if x = PNone then Some (result, idx)
          else many_loop parser s idx2 (result @ [x]))"

definition many_inner :: "Parser \<Rightarrow> pfun" where
  "many_inner parser s idx =
     (case many_loop parser s idx [] of
        None \<Rightarrow> None
      | Some (result, idx') \<Rightarrow> Some (PList result, idx'))"

definition many :: "Parser \<Rightarrow> Parser" where
  "many parser = Parser (many_inner parser)"

section \<open>The atomic parsers of the source\<close>

definition parse_a :: pfun where
  "parse_a text pos =
     (if pos < length text \<and> text ! pos = CHR ''a'' then Some (PStr ''a'', pos + 1)
      else Some (PNone, pos))"

text \<open>\<open>text.startswith(lit, pos)\<close> for a non-negative \<open>pos\<close>.\<close>

definition startswith :: "string \<Rightarrow> string \<Rightarrow> nat \<Rightarrow> bool" where
  "startswith text lit pos = (pos \<le> length text \<and> take (length lit) (drop pos text) = lit)"

definition parse_true_func :: pfun where
  "parse_true_func text pos =
     (if startswith text ''true'' pos then Some (PStr ''true'', pos + 4)
      else Some (PNone, pos))"

definition parse_false :: pfun where
  "parse_false text pos =
     (if startswith text ''false'' pos then Some (PStr ''false'', pos + 5)
      else Some (PNone, pos))"

definition parse_letter_a :: Parser where
  "parse_letter_a = Parser parse_a"

definition parse_true :: Parser where
  "parse_true = Parser parse_true_func"

section \<open>Notions the claims speak of\<close>

text \<open>
  A run of successful attempts of \<open>p\<close> on \<open>s\<close> from offset \<open>i\<close>: the list holds the
  result pair of each attempt in order, and each attempt starts where the one before
  ended.
\<close>

fun successes :: "Parser \<Rightarrow> string \<Rightarrow> nat \<Rightarrow> result list \<Rightarrow> bool" where
  "successes p s i [] = True"
| "successes p s i ((v, j) # rs) =
     (call p s (Some i) = Some (v, j) \<and> v \<noteq> PNone \<and> successes p s j rs)"

text \<open>
  The outcome of a call is a success when a pair is returned whose value is not
  \<open>None\<close>: the test \<open>x[0] is not None\<close> that the combinators apply.
\<close>

definition is_success :: "result option \<Rightarrow> bool" where
  "is_success r = (case r of None \<Rightarrow> False | Some x \<Rightarrow> fst x \<noteq> PNone)"


text \<open>The success contract: a success never ends before the offset it started at.\<close>

definition success_contract :: "Parser \<Rightarrow> bool" where
  "success_contract p \<longleftrightarrow>
     (\<forall>s i v j. call p s (Some i) = Some (v, j) \<and> v \<noteq> PNone \<longrightarrow> i \<le> j)"

text \<open>Forward progress: a success ends strictly after the offset it started at.\<close>

definition forward_progress :: "Parser \<Rightarrow> bool" where
  "forward_progress p \<longleftrightarrow>
     (\<forall>s i v j. call p s (Some i) = Some (v, j) \<and> v \<noteq> PNone \<longrightarrow> i < j)"


section \<open>Basic facts about calls\<close>

lemma call_Parser_Some: "call (Parser f) s (Some i) = f s i"
  by (simp add: call_def)

lemma call_Parser_None: "call (Parser f) s None = f s 0"
  by (simp add: call_def)

lemmas atom_defs = call_def parse_letter_a_def parse_true_def parse_a_def parse_true_func_def
  parse_false_def startswith_def

text \<open>The runs of the source's demonstration script on its atomic parsers.\<close>

lemma parse_letter_a_atrue: "call parse_letter_a ''atrue'' (Some 0) = Some (PStr ''a'', 1)"
  by (simp add: atom_defs)

lemma parse_letter_a_true: "call parse_letter_a ''true'' (Some 0) = Some (PNone, 0)"
  by (simp add: atom_defs)

lemma parse_letter_a_ab: "call parse_letter_a ''ab'' (Some 0) = Some (PStr ''a'', 1)"
  by (simp add: atom_defs)

lemma parse_letter_a_abc: "call parse_letter_a ''abc'' (Some 0) = Some (PStr ''a'', 1)"
  by (simp add: atom_defs)

lemma parse_true_atrue: "call parse_true ''atrue'' (Some 1) = Some (PStr ''true'', 5)"
  by (simp add: atom_defs)

lemma parse_true_true: "call parse_true ''true'' (Some 0) = Some (PStr ''true'', 4)"
  by (simp add: atom_defs)

lemma parse_true_ab: "call parse_true ''ab'' (Some 1) = Some (PNone, 1)"
  by (simp add: atom_defs)

text \<open>
  Failures of \<open>seq\<close> and \<open>between\<close> report the offset at which the combinator was
  invoked, whatever the sub-parsers report.
\<close>

lemma seq_failure_offset:
  "call (seq p q) s (Some i) = Some (PNone, j) \<Longrightarrow> j = i"
  by (auto simp: seq_def parse_seq_def call_Parser_Some split: option.splits if_splits)

lemma between_failure_offset:
  assumes "call (between p q r) s (Some i) = Some (PNone, j)"
  shows "j = i"
  using assms
  by (auto simp: between_def parse_between_def call_Parser_Some
      split: option.splits if_splits)

text \<open>
  \<open>compose\<close> and \<open>bind\<close> restore the offset only when the first parser fails. When
  the first parser succeeds, the failure pair of the second one is returned as it is.
\<close>

lemma compose_first_failure_offset:
  "call p s (Some i) = Some (PNone, j) \<Longrightarrow> call (compose p q) s (Some i) = Some (PNone, i)"
  by (simp add: compose_def parse_compose_def call_Parser_Some)

lemma compose_second_failure_offset:
  assumes "call p s (Some i) = Some (x, k)" and "x \<noteq> PNone"
    and "call q s (Some k) = Some (PNone, k)"
  shows "call (compose p q) s (Some i) = Some (PNone, k)"
  using assms by (simp add: compose_def parse_compose_def call_Parser_Some)

lemma bind_second_failure_offset:
  assumes "call p s (Some i) = Some (x, k)" and "x \<noteq> PNone"
    and "f x = Some q" and "call q s (Some k) = Some (PNone, k)"
  shows "call (bind p f) s (Some i) = Some (PNone, k)"
  using assms by (simp add: bind_def bind_inner_def call_Parser_Some)


section \<open>The loop of many\<close>

lemma many_loop_successes:
  "successes p s i rs \<Longrightarrow> call p s (Some (last (i # map snd rs))) = Some (PNone, j') \<Longrightarrow>
   many_loop p s i acc = Some (acc @ map fst rs, last (i # map snd rs))"
proof (induction rs arbitrary: i acc)
  case Nil
  then show ?case by (subst many_loop.simps) simp
next
  case (Cons r rs)
  obtain v j where r: "r = (v, j)" by (cases r)
  from Cons.prems r have c: "call p s (Some i) = Some (v, j)" and v: "v \<noteq> PNone"
    and rest: "successes p s j rs" by simp_all
  from Cons.prems(2) r have fl: "call p s (Some (last (j # map snd rs))) = Some (PNone, j')"
    by simp
  have "many_loop p s i acc = many_loop p s j (acc @ [v])"
    by (subst many_loop.simps) (simp add: c v)
  also have "\<dots> = Some ((acc @ [v]) @ map fst rs, last (j # map snd rs))"
    by (rule Cons.IH [OF rest fl])
  finally show ?case using r by simp
qed

lemma many_never_fails: "call (many p) s (Some i) \<noteq> Some (PNone, j)"
  by (simp add: many_def many_inner_def call_Parser_Some split: option.splits)

lemma many_loop_progress:
  assumes ret: "\<forall>i. call p s (Some i) \<noteq> None"
    and prog: "\<forall>i v j. call p s (Some i) = Some (v, j) \<and> v \<noteq> PNone \<longrightarrow> i < length s \<and> i < j"
  shows "\<exists>vs j. many_loop p s i acc = Some (acc @ vs, j) \<and> length vs \<le> length s - i"
proof (induction "length s - i" arbitrary: i acc rule: less_induct)
  case less
  from ret obtain x j where c: "call p s (Some i) = Some (x, j)"
    by (metis option.exhaust surj_pair)
  show ?case
  proof (cases "x = PNone")
    case True
    have "many_loop p s i acc = Some (acc @ [], i)"
      by (subst many_loop.simps) (simp add: c True)
    then show ?thesis by (intro exI [of _ "[]"] exI [of _ i]) simp
  next
    case False
    with prog c have lt: "i < length s" "i < j" by blast+
    then have "length s - j < length s - i" by arith
    from less [OF this, of "acc @ [x]"]
    obtain vs j' where r: "many_loop p s j (acc @ [x]) = Some ((acc @ [x]) @ vs, j')"
      and b: "length vs \<le> length s - j" by blast
    have "many_loop p s i acc = many_loop p s j (acc @ [x])"
      by (subst many_loop.simps) (simp add: c False)
    with r have "many_loop p s i acc = Some (acc @ (x # vs), j')" by simp
    moreover from b lt have "length (x # vs) \<le> length s - i" by simp
    ultimately show ?thesis by blast
  qed
qed

lemma many_loop_returns_then_failure:
  assumes "many_loop p s i acc = Some y"
  shows "\<exists>k j. call p s (Some k) = Some (PNone, j)"
proof (rule many_loop.raw_induct
    [where P = "\<lambda>p s i acc y. \<exists>k j. call p s (Some k) = Some (PNone, j)", OF _ assms])
  fix loop :: "Parser \<Rightarrow> string \<Rightarrow> nat \<Rightarrow> pyval list \<Rightarrow> (pyval list \<times> nat) option"
    and parser s idx result y
  assume IH: "\<And>p s i acc y. loop p s i acc = Some y \<Longrightarrow>
      \<exists>k j. call p s (Some k) = Some (PNone, j)"
  assume body: "(case call parser s (Some idx) of None \<Rightarrow> None
      | Some (x, idx2) \<Rightarrow>
          if x = PNone then Some (result, idx)
          else loop parser s idx2 (result @ [x])) = Some y"
  from body obtain x idx2 where c: "call parser s (Some idx) = Some (x, idx2)"
    by (auto split: option.splits)
  show "\<exists>k j. call parser s (Some k) = Some (PNone, j)"
  proof (cases "x = PNone")
    case True
    with c show ?thesis by blast
  next
    case False
    with body c have "loop parser s idx2 (result @ [x]) = Some y" by simp
    then show ?thesis by (rule IH)
  qed
qed

lemma many_loop_no_failure_diverges:
  assumes "\<forall>k j. call p s (Some k) \<noteq> Some (PNone, j)"
  shows "many_loop p s i acc = None"
proof (cases "many_loop p s i acc")
  case None
  then show ?thesis .
next
  case (Some y)
  from many_loop_returns_then_failure [OF Some] assms show ?thesis by blast
qed


text \<open>A loop over a parser that succeeds at every offset without failing never ends.\<close>

lemma many_pure_never_returns:
  assumes "x \<noteq> PNone"
  shows "call (many (pure x)) s (Some i) = None"
proof -
  from assms have "\<forall>k j. call (pure x) s (Some k) \<noteq> Some (PNone, j)"
    by (simp add: pure_def call_Parser_Some)
  then have "many_loop (pure x) s i [] = None"
    by (rule many_loop_no_failure_diverges)
  then show ?thesis
    by (simp add: many_def many_inner_def call_Parser_Some)
qed

section \<open>The success contract under each combinator\<close>

lemma success_contractI:
  "(\<And>s i v j. call p s (Some i) = Some (v, j) \<Longrightarrow> v \<noteq> PNone \<Longrightarrow> i \<le> j) \<Longrightarrow> success_contract p"
  unfolding success_contract_def by blast







lemma regex_success_contract:
  assumes m: "\<forall>s i g e. m s i = Some (g, e) \<longrightarrow> i \<le> e"
  shows "success_contract (Parser (regex m))"
proof (rule success_contractI)
  fix s i v j
  assume r: "call (Parser (regex m)) s (Some i) = Some (v, j)" and v: "v \<noteq> PNone"
  from r v obtain g where "m s i = Some (g, j)"
    by (auto simp: regex_def call_Parser_Some split: option.splits)
  with m show "i \<le> j" by blast
qed






section \<open>Claims\<close>

text \<open>
  C3 (as the code has it). For every value \<open>x\<close>, every text \<open>s\<close> (the empty text
  included) and every offset \<open>i\<close>, the call \<open>pure(x)(s, i)\<close> returns the pair
  \<open>(x, i)\<close>, so \<open>pure\<close> never advances the offset; the outcome is a success, with
  value \<open>x\<close>, for every \<open>x\<close> other than \<open>None\<close>.
\<close>

theorem pure_succeeds_with_value_other_than_None:
  "call (pure x) s (Some i) = Some (x, i) \<and>
   (x \<noteq> PNone \<longrightarrow> is_success (call (pure x) s (Some i)))"
  by (simp add: pure_def call_Parser_Some is_success_def)

theorem pure_succeeds_with_value_other_than_None_witness:
  "call (pure (PStr ''a'')) [] (Some 0) = Some (PStr ''a'', 0) \<and>
   is_success (call (pure (PStr ''a'')) [] (Some 0))"
proof -
  have x: "PStr ''a'' \<noteq> PNone" by simp
  note t = pure_succeeds_with_value_other_than_None [where x = "PStr ''a''" and s = "[]" and i = 0]
  from t have a: "call (pure (PStr ''a'')) [] (Some 0) = Some (PStr ''a'', 0)"
    by (rule conjunct1)
  from t x have b: "is_success (call (pure (PStr ''a'')) [] (Some 0))"
    by blast
  from a b show ?thesis by (intro conjI)
qed

text \<open>
  C3 as the specification words it fails at the value \<open>None\<close>: \<open>pure(None)\<close> on
  the empty text from offset 0 returns the pair \<open>(None, 0)\<close>, which is the failure
  pair, not a success. \<open>choice\<close> takes it for a failure and runs its second parser.
\<close>

theorem pure_None_counterexample:
  "call (pure PNone) [] (Some 0) = Some (PNone, 0) \<and>
   \<not> is_success (call (pure PNone) [] (Some 0)) \<and>
   call (choice (pure PNone) parse_true) ''true'' (Some 0) = Some (PStr ''true'', 4)"
  by (simp add: atom_defs pure_def is_success_def choice_def parse_choice_def)

text \<open>
  C10. Invoking a wrapped parser without a start position parses from offset 0:
  \<open>p(s)\<close> equals \<open>p(s, 0)\<close>.
\<close>

theorem call_default_position:
  "call p s None = call p s (Some 0)"
  by (simp add: call_def)

text \<open>
  C7. Contract of \<open>choice(p, q)\<close> at \<open>(s, i)\<close>: if \<open>p\<close> succeeds, its result pair is
  returned unmodified; if \<open>p\<close> fails, the result is exactly that of running \<open>q\<close> at
  the original offset \<open>i\<close>, whether a success or a failure.
\<close>

theorem choice_contract:
  "(call p s (Some i) = Some (v, j) \<and> v \<noteq> PNone \<longrightarrow>
      call (choice p q) s (Some i) = Some (v, j)) \<and>
   (call p s (Some i) = Some (PNone, j) \<longrightarrow>
      call (choice p q) s (Some i) = call q s (Some i))"
  by (simp add: choice_def parse_choice_def call_Parser_Some)

theorem choice_contract_witness:
  "call parse_letter_a ''atrue'' (Some 0) = Some (PStr ''a'', 1) \<and>
   call (choice parse_letter_a parse_true) ''atrue'' (Some 0) = Some (PStr ''a'', 1) \<and>
   call parse_letter_a ''true'' (Some 0) = Some (PNone, 0) \<and>
   call (choice parse_letter_a parse_true) ''true'' (Some 0) = Some (PStr ''true'', 4) \<and>
   call (choice parse_letter_a parse_true) ''xyz'' (Some 0) = Some (PNone, 0)"
proof -
  have a3: "call parse_letter_a ''xyz'' (Some 0) = Some (PNone, 0)"
    by (simp add: atom_defs)
  have b3: "call parse_true ''xyz'' (Some 0) = Some (PNone, 0)"
    by (simp add: atom_defs)
  note c = choice_contract [where q = parse_true and p = parse_letter_a]
  from c [where s = "''atrue''" and i = 0 and v = "PStr ''a''" and j = 1] parse_letter_a_atrue
  have r1: "call (choice parse_letter_a parse_true) ''atrue'' (Some 0) = Some (PStr ''a'', 1)"
    by blast
  from c [where s = "''true''" and i = 0 and j = 0] parse_letter_a_true parse_true_true
  have r2: "call (choice parse_letter_a parse_true) ''true'' (Some 0) = Some (PStr ''true'', 4)"
    by metis
  from c [where s = "''xyz''" and i = 0 and j = 0] a3 b3
  have r3: "call (choice parse_letter_a parse_true) ''xyz'' (Some 0) = Some (PNone, 0)"
    by metis
  from parse_letter_a_atrue r1 parse_letter_a_true r2 r3 show ?thesis by (intro conjI)
qed

text \<open>
  C4 at its failing input. \<open>parse_seq\<close> calls the second parser before it tests the
  value of the first. On the text \<open>b\<close> from offset 0, \<open>parse_letter_a\<close> fails at
  offset 0; \<open>seq(parse_letter_a, many(pure("x")))\<close> then calls \<open>many(pure("x"))\<close>,
  whose loop never ends, so \<open>seq\<close> never returns the failure at offset 0.
  \<open>compose\<close> and \<open>between\<close> with the same parsers stop at the first failure and
  return it.
\<close>

theorem seq_calls_second_parser_after_first_failed:
  "call parse_letter_a ''b'' (Some 0) = Some (PNone, 0) \<and>
   call (seq parse_letter_a (many (pure (PStr ''x'')))) ''b'' (Some 0) = None \<and>
   call (compose parse_letter_a (many (pure (PStr ''x'')))) ''b'' (Some 0) = Some (PNone, 0) \<and>
   call (between parse_letter_a (many (pure (PStr ''x''))) parse_true) ''b'' (Some 0) =
     Some (PNone, 0)"
proof -
  have a: "call parse_letter_a ''b'' (Some 0) = Some (PNone, 0)"
    by (simp add: atom_defs)
  have m: "call (many (pure (PStr ''x''))) ''b'' (Some 0) = None"
    by (rule many_pure_never_returns) simp
  have s: "call (seq parse_letter_a (many (pure (PStr ''x'')))) ''b'' (Some 0) = None"
    by (simp add: seq_def parse_seq_def call_Parser_Some a m)
  have c: "call (compose parse_letter_a (many (pure (PStr ''x'')))) ''b'' (Some 0) =
      Some (PNone, 0)"
    by (simp add: compose_def parse_compose_def call_Parser_Some a)
  have b: "call (between parse_letter_a (many (pure (PStr ''x''))) parse_true) ''b'' (Some 0) =
      Some (PNone, 0)"
    by (simp add: between_def parse_between_def call_Parser_Some a)
  from a s c b show ?thesis by (intro conjI)
qed

text \<open>
  What \<open>seq(p, q)\<close> returns at \<open>(s, i)\<close> when the calls it makes return. If \<open>p\<close>
  fails and the call of \<open>q\<close> at the offset \<open>p\<close> reported returns, \<open>seq\<close> fails at
  offset \<open>i\<close>. If \<open>p\<close> succeeds at end offset \<open>j\<close> and \<open>q\<close> fails at \<open>(s, j)\<close>,
  \<open>seq\<close> fails at offset \<open>i\<close>. If \<open>p\<close> succeeds with \<open>va\<close> at \<open>j\<close> and \<open>q\<close>
  succeeds at \<open>(s, j)\<close> with \<open>vb\<close> at \<open>k\<close>, \<open>seq\<close> returns the pair \<open>(va, vb)\<close>
  at offset \<open>k\<close>.
\<close>

theorem seq_contract:
  "(call p s (Some i) = Some (PNone, i') \<and> call q s (Some i') = Some r \<longrightarrow>
      call (seq p q) s (Some i) = Some (PNone, i)) \<and>
   (call p s (Some i) = Some (va, j) \<and> va \<noteq> PNone \<and>
    call q s (Some j) = Some (PNone, j') \<longrightarrow>
      call (seq p q) s (Some i) = Some (PNone, i)) \<and>
   (call p s (Some i) = Some (va, j) \<and> va \<noteq> PNone \<and>
    call q s (Some j) = Some (vb, k) \<and> vb \<noteq> PNone \<longrightarrow>
      call (seq p q) s (Some i) = Some (PTuple [va, vb], k))"
  by (cases r) (simp add: seq_def parse_seq_def call_Parser_Some)

theorem seq_contract_witness:
  "call (seq parse_letter_a parse_true) ''true'' (Some 0) = Some (PNone, 0) \<and>
   call (seq parse_letter_a parse_true) ''ab'' (Some 0) = Some (PNone, 0) \<and>
   call (seq parse_letter_a parse_true) ''atrue'' (Some 0) =
     Some (PTuple [PStr ''a'', PStr ''true''], 5)"
proof -
  note c = seq_contract [where p = parse_letter_a and q = parse_true and i = 0]
  from c [where s = "''true''" and i' = 0 and r = "(PStr ''true'', 4)"]
    parse_letter_a_true parse_true_true
  have r1: "call (seq parse_letter_a parse_true) ''true'' (Some 0) = Some (PNone, 0)"
    by blast
  from c [where s = "''ab''" and va = "PStr ''a''" and j = 1 and j' = 1]
    parse_letter_a_ab parse_true_ab
  have r2: "call (seq parse_letter_a parse_true) ''ab'' (Some 0) = Some (PNone, 0)"
    by blast
  from c [where s = "''atrue''" and va = "PStr ''a''" and j = 1 and vb = "PStr ''true''" and k = 5]
    parse_letter_a_atrue parse_true_atrue
  have r3: "call (seq parse_letter_a parse_true) ''atrue'' (Some 0) =
     Some (PTuple [PStr ''a'', PStr ''true''], 5)"
    by blast
  from r1 r2 r3 show ?thesis by (intro conjI)
qed

text \<open>
  C5. Contract of \<open>between(p, q, r)\<close> at \<open>(s, i)\<close>: the three parsers run in order,
  each from the end offset of the one before. If any of them fails, \<open>between\<close> fails
  at the original offset \<open>i\<close>. If all three succeed, \<open>between\<close> returns the value of
  \<open>q\<close> alone, at the offset reached after \<open>q\<close>, not the one reached after \<open>r\<close>.
\<close>

theorem between_contract:
  "(call p s (Some i) = Some (PNone, i') \<longrightarrow>
      call (between p q r) s (Some i) = Some (PNone, i)) \<and>
   (call p s (Some i) = Some (va, j) \<and> va \<noteq> PNone \<and>
    call q s (Some j) = Some (PNone, j') \<longrightarrow>
      call (between p q r) s (Some i) = Some (PNone, i)) \<and>
   (call p s (Some i) = Some (va, j) \<and> va \<noteq> PNone \<and>
    call q s (Some j) = Some (vb, k) \<and> vb \<noteq> PNone \<and>
    call r s (Some k) = Some (PNone, k') \<longrightarrow>
      call (between p q r) s (Some i) = Some (PNone, i)) \<and>
   (call p s (Some i) = Some (va, j) \<and> va \<noteq> PNone \<and>
    call q s (Some j) = Some (vb, k) \<and> vb \<noteq> PNone \<and>
    call r s (Some k) = Some (vc, l) \<and> vc \<noteq> PNone \<longrightarrow>
      call (between p q r) s (Some i) = Some (vb, k))"
  by (simp add: between_def parse_between_def call_Parser_Some)

theorem between_contract_witness:
  "call (between parse_letter_a parse_true (Parser parse_false)) ''true'' (Some 0) =
     Some (PNone, 0) \<and>
   call (between parse_letter_a parse_true (Parser parse_false)) ''ab'' (Some 0) =
     Some (PNone, 0) \<and>
   call (between parse_letter_a parse_true (Parser parse_false)) ''atrue'' (Some 0) =
     Some (PNone, 0) \<and>
   call (Parser parse_false) ''atruefalse'' (Some 5) = Some (PStr ''false'', 10) \<and>
   call (between parse_letter_a parse_true (Parser parse_false)) ''atruefalse'' (Some 0) =
     Some (PStr ''true'', 5)"
proof -
  have a4: "call parse_letter_a ''atruefalse'' (Some 0) = Some (PStr ''a'', 1)"
    by (simp add: atom_defs)
  have b4: "call parse_true ''atruefalse'' (Some 1) = Some (PStr ''true'', 5)"
    by (simp add: atom_defs)
  have c3: "call (Parser parse_false) ''atrue'' (Some 5) = Some (PNone, 5)"
    by (simp add: atom_defs)
  have c4: "call (Parser parse_false) ''atruefalse'' (Some 5) = Some (PStr ''false'', 10)"
    by (simp add: atom_defs)
  note c = between_contract
    [where p = parse_letter_a and q = parse_true and r = "Parser parse_false" and i = 0]
  from c [where s = "''true''" and i' = 0] parse_letter_a_true
  have r1: "call (between parse_letter_a parse_true (Parser parse_false)) ''true'' (Some 0) =
     Some (PNone, 0)"
    by blast
  from c [where s = "''ab''" and va = "PStr ''a''" and j = 1 and j' = 1]
    parse_letter_a_ab parse_true_ab
  have r2: "call (between parse_letter_a parse_true (Parser parse_false)) ''ab'' (Some 0) =
     Some (PNone, 0)"
    by blast
  from c [where s = "''atrue''" and va = "PStr ''a''" and j = 1 and vb = "PStr ''true''"
      and k = 5 and k' = 5]
    parse_letter_a_atrue parse_true_atrue c3
  have r3: "call (between parse_letter_a parse_true (Parser parse_false)) ''atrue'' (Some 0) =
     Some (PNone, 0)"
    by blast
  from c [where s = "''atruefalse''" and va = "PStr ''a''" and j = 1 and vb = "PStr ''true''"
      and k = 5 and vc = "PStr ''false''" and l = 10]
    a4 b4 c4
  have r4: "call (between parse_letter_a parse_true (Parser parse_false)) ''atruefalse'' (Some 0) =
     Some (PStr ''true'', 5)"
    by blast
  from r1 r2 r3 c4 r4 show ?thesis by (intro conjI)
qed

text \<open>
  C1 (as the code has it). If \<open>p\<close> succeeds at \<open>(s, i)\<close> with value \<open>v\<close> and end
  offset \<open>j\<close>, then \<open>fmap(f, p)(s, i)\<close> returns, at end offset \<open>j\<close>, the value of
  \<open>f\<close> on the whole result pair \<open>(v, j)\<close>; \<open>f\<close> never receives the unwrapped
  value \<open>v\<close>.
\<close>

theorem fmap_applies_f_to_result_pair:
  "call p s (Some i) = Some (v, j) \<and> v \<noteq> PNone \<and> f (PTuple [v, PInt (int j)]) = Some w \<longrightarrow>
     call (fmap f p) s (Some i) = Some (w, j)"
  by (simp add: fmap_def parse_fmap_def pair_obj_def call_Parser_Some)

theorem fmap_applies_f_to_result_pair_witness:
  "call (fmap Some parse_letter_a) ''abc'' (Some 0) = Some (PTuple [PStr ''a'', PInt 1], 1)"
proof -
  have "Some (PTuple [PStr ''a'', PInt (int 1)]) = Some (PTuple [PStr ''a'', PInt 1])"
    by simp
  with fmap_applies_f_to_result_pair
    [where p = parse_letter_a and s = "''abc''" and i = 0 and v = "PStr ''a''" and j = 1
       and f = Some and w = "PTuple [PStr ''a'', PInt 1]"]
    parse_letter_a_abc
  show ?thesis by blast
qed

text \<open>
  C1 as the specification words it fails: with the identity function for \<open>f\<close>
  (Python's \<open>lambda x: x\<close>), the parser \<open>parse_letter_a\<close>, the text \<open>abc\<close> and
  offset 0, the sub-parser succeeds with \<open>'a'\<close> at offset 1 and \<open>f('a')\<close> is
  \<open>'a'\<close>, yet the call does not return \<open>'a'\<close> at offset 1: it returns the tuple
  \<open>('a', 1)\<close> at offset 1.
\<close>

theorem fmap_value_counterexample:
  "call parse_letter_a ''abc'' (Some 0) = Some (PStr ''a'', 1) \<and>
   PStr ''a'' \<noteq> PNone \<and>
   Some (PStr ''a'') = Some (PStr ''a'') \<and>
   call (fmap Some parse_letter_a) ''abc'' (Some 0) \<noteq> Some (PStr ''a'', 1) \<and>
   call (fmap Some parse_letter_a) ''abc'' (Some 0) = Some (PTuple [PStr ''a'', PInt 1], 1)"
  by (simp add: atom_defs fmap_def parse_fmap_def pair_obj_def)

text \<open>
  C2 at its failing input: \<open>compose(parse_letter_a, parse_true)\<close> on the text \<open>ab\<close>
  from offset 0 fails, and reports offset 1, the end offset of the first parser,
  not the starting offset 0.
\<close>

theorem compose_failure_reports_intermediate_offset:
  "call (compose parse_letter_a parse_true) ''ab'' (Some 0) = Some (PNone, 1)"
  by (simp add: atom_defs compose_def parse_compose_def)

text \<open>
  C6. If the attempts of \<open>p\<close> on \<open>s\<close> from offset \<open>i\<close> are a finite run of
  successes followed by an attempt that fails, then \<open>many(p)(s, i)\<close> returns the list
  of the successes' values, in order (the empty list when the first attempt fails),
  paired with the offset reached just before the failing attempt. Whatever \<open>p\<close> does,
  \<open>many(p)\<close> never returns the failure sentinel.
\<close>

theorem many_returns_values_of_successes:
  "(successes p s i rs \<and> call p s (Some (last (i # map snd rs))) = Some (PNone, j') \<longrightarrow>
      call (many p) s (Some i) = Some (PList (map fst rs), last (i # map snd rs))) \<and>
   call (many p) s (Some i) \<noteq> Some (PNone, j)"
proof (intro conjI impI)
  assume "successes p s i rs \<and> call p s (Some (last (i # map snd rs))) = Some (PNone, j')"
  then have "many_loop p s i [] = Some ([] @ map fst rs, last (i # map snd rs))"
    by (intro many_loop_successes) simp_all
  then show "call (many p) s (Some i) = Some (PList (map fst rs), last (i # map snd rs))"
    by (simp add: many_def many_inner_def call_Parser_Some)
next
  show "call (many p) s (Some i) \<noteq> Some (PNone, j)"
    by (rule many_never_fails)
qed

theorem many_returns_values_of_successes_witness:
  "call (many parse_letter_a) ''aaab'' (Some 0) =
     Some (PList [PStr ''a'', PStr ''a'', PStr ''a''], 3) \<and>
   call (many parse_letter_a) ''bbb'' (Some 0) = Some (PList [], 0)"
proof -
  let ?rs = "[(PStr ''a'', 1), (PStr ''a'', 2), (PStr ''a'', 3 :: nat)]"
  have s1: "successes parse_letter_a ''aaab'' 0 ?rs"
    by (simp add: atom_defs)
  have f1: "call parse_letter_a ''aaab'' (Some (last (0 # map snd ?rs))) = Some (PNone, 3)"
    by (simp add: atom_defs)
  from many_returns_values_of_successes
    [where p = parse_letter_a and s = "''aaab''" and i = 0 and rs = ?rs and j' = 3] s1 f1
  have "call (many parse_letter_a) ''aaab'' (Some 0) =
      Some (PList (map fst ?rs), last (0 # map snd ?rs))"
    by blast
  then have r1: "call (many parse_letter_a) ''aaab'' (Some 0) =
     Some (PList [PStr ''a'', PStr ''a'', PStr ''a''], 3)"
    by simp
  have s2: "successes parse_letter_a ''bbb'' 0 []"
    by simp
  have f2: "call parse_letter_a ''bbb'' (Some (last (0 # map snd ([] :: result list)))) = Some (PNone, 0)"
    by (simp add: atom_defs)
  from many_returns_values_of_successes
    [where p = parse_letter_a and s = "''bbb''" and i = 0 and rs = "[]" and j' = 0] s2 f2
  have "call (many parse_letter_a) ''bbb'' (Some 0) =
      Some (PList (map fst ([] :: result list)), last (0 # map snd ([] :: result list)))"
    by blast
  then have r2: "call (many parse_letter_a) ''bbb'' (Some 0) = Some (PList [], 0)"
    by simp
  from r1 r2 show ?thesis by (intro conjI)
qed

text \<open>
  C8 (as the code has it). If every call of \<open>p\<close> on \<open>s\<close> returns and every successful
  invocation of \<open>p\<close> on \<open>s\<close> starts inside the text and strictly advances the offset,
  then the loop of \<open>many(p)(s, i)\<close> terminates, after at most \<open>len(s) - i\<close>
  successful iterations. Without forward progress termination is not guaranteed:
  \<open>many(pure(x))\<close> never returns for a value \<open>x\<close> other than \<open>None\<close>.
\<close>

theorem many_terminates_within_text:
  "((\<forall>k. call p s (Some k) \<noteq> None) \<and>
    (\<forall>k v j. call p s (Some k) = Some (v, j) \<and> v \<noteq> PNone \<longrightarrow> k < length s \<and> k < j) \<longrightarrow>
      (\<exists>vs j. call (many p) s (Some i) = Some (PList vs, j) \<and> length vs \<le> length s - i)) \<and>
   (x \<noteq> PNone \<longrightarrow> call (many (pure x)) s (Some i) = None)"
proof (intro conjI impI)
  assume h: "(\<forall>k. call p s (Some k) \<noteq> None) \<and>
    (\<forall>k v j. call p s (Some k) = Some (v, j) \<and> v \<noteq> PNone \<longrightarrow> k < length s \<and> k < j)"
  then have "\<exists>vs j. many_loop p s i [] = Some ([] @ vs, j) \<and> length vs \<le> length s - i"
    by (intro many_loop_progress) blast+
  then show "\<exists>vs j. call (many p) s (Some i) = Some (PList vs, j) \<and> length vs \<le> length s - i"
    by (auto simp: many_def many_inner_def call_Parser_Some)
next
  assume "x \<noteq> PNone"
  then have "\<forall>k j. call (pure x) s (Some k) \<noteq> Some (PNone, j)"
    by (simp add: pure_def call_Parser_Some)
  then have "many_loop (pure x) s i [] = None"
    by (rule many_loop_no_failure_diverges)
  then show "call (many (pure x)) s (Some i) = None"
    by (simp add: many_def many_inner_def call_Parser_Some)
qed

theorem many_terminates_within_text_witness:
  "(\<exists>vs j. call (many parse_letter_a) ''aaab'' (Some 0) = Some (PList vs, j) \<and>
      length vs \<le> length ''aaab'' - 0) \<and>
   call (many (pure (PStr ''x''))) ''aaab'' (Some 0) = None"
proof -
  have r: "\<forall>k. call parse_letter_a ''aaab'' (Some k) \<noteq> None"
    by (simp add: atom_defs)
  have g: "\<forall>k v j. call parse_letter_a ''aaab'' (Some k) = Some (v, j) \<and> v \<noteq> PNone \<longrightarrow>
      k < length ''aaab'' \<and> k < j"
    by (auto simp: atom_defs split: if_splits)
  have x: "PStr ''x'' \<noteq> PNone" by simp
  note t = many_terminates_within_text
    [where p = parse_letter_a and s = "''aaab''" and i = 0 and x = "PStr ''x''"]
  from t r g have a: "\<exists>vs j. call (many parse_letter_a) ''aaab'' (Some 0) = Some (PList vs, j) \<and>
      length vs \<le> length ''aaab'' - 0"
    by blast
  from t x have b: "call (many (pure (PStr ''x''))) ''aaab'' (Some 0) = None"
    by blast
  from a b show ?thesis by (intro conjI)
qed

text \<open>
  C8 as the specification words it fails: forward progress alone does not bound the
  loop. The parser \<open>Parser(lambda s, i: ("x", i + 1))\<close> strictly advances the offset
  on every success, and \<open>many\<close> of it on the empty text from offset 0 never returns.
\<close>

theorem many_forward_progress_counterexample:
  "forward_progress (Parser (\<lambda>s i. Some (PStr ''x'', i + 1))) \<and>
   call (many (Parser (\<lambda>s i. Some (PStr ''x'', i + 1)))) [] (Some 0) = None"
proof (intro conjI)
  show "forward_progress (Parser (\<lambda>s i. Some (PStr ''x'', i + 1)))"
    by (simp add: forward_progress_def call_Parser_Some)
  have "\<forall>k j. call (Parser (\<lambda>s i. Some (PStr ''x'', i + 1))) [] (Some k) \<noteq> Some (PNone, j)"
    by (simp add: call_Parser_Some)
  then have "many_loop (Parser (\<lambda>s i. Some (PStr ''x'', i + 1))) [] 0 [] = None"
    by (rule many_loop_no_failure_diverges)
  then show "call (many (Parser (\<lambda>s i. Some (PStr ''x'', i + 1)))) [] (Some 0) = None"
    by (simp add: many_def many_inner_def call_Parser_Some)
qed




end
